theory Spec2Isabelle
  imports Main
begin

section \<open>Python strings\<close>

text \<open>
  A Python \<open>str\<close> is a sequence of Unicode code points. It is modelled as the list of
  its code points, so that \<open>length\<close>, slicing, \<open>in\<close> and \<open>replace\<close> count what Python
  counts. \<open>str\<close> embeds an Isabelle literal (Latin-1 characters) for readable examples.
\<close>

type_synonym pystr = "nat list"

definition str :: "string \<Rightarrow> pystr" where
  "str s = map of_char s"

definition nl :: pystr where
  \<comment> \<open>the one-character string \<open>"\n"\<close>\<close>
  "nl = [10]"

definition is_space :: "nat \<Rightarrow> bool" where
  \<comment> \<open>the code points that \<open>str.isspace\<close> accepts and \<open>str.rstrip()\<close> strips\<close>
  "is_space c \<longleftrightarrow>
     (9 \<le> c \<and> c \<le> 13) \<or> (28 \<le> c \<and> c \<le> 32) \<or> c = 133 \<or> c = 160 \<or> c = 5760 \<or>
     (8192 \<le> c \<and> c \<le> 8202) \<or> c = 8232 \<or> c = 8233 \<or> c = 8239 \<or> c = 8287 \<or> c = 12288"

definition rstrip :: "pystr \<Rightarrow> pystr" where
  \<comment> \<open>\<open>text.rstrip()\<close>: the trailing whitespace is removed\<close>
  "rstrip text = rev (dropWhile is_space (rev text))"

fun py_in :: "'a list \<Rightarrow> 'a list \<Rightarrow> bool" where
  \<comment> \<open>\<open>needle in text\<close>: \<open>needle\<close> occurs in \<open>text\<close> as a contiguous substring\<close>
  "py_in needle [] = (needle = [])"
| "py_in needle (c # cs) = (take (length needle) (c # cs) = needle \<or> py_in needle cs)"

fun replace_from :: "'a list \<Rightarrow> 'a list \<Rightarrow> 'a list \<Rightarrow> 'a list" where
  \<comment> \<open>the left-to-right scan of \<open>str.replace\<close> for a non-empty \<open>old\<close>: at an occurrence of
      \<open>old\<close> emit \<open>new\<close> and skip the occurrence, otherwise copy one character\<close>
  "replace_from old new [] = []"
| "replace_from old new (c # cs) =
     (if take (length old) (c # cs) = old
      then new @ replace_from old new (drop (length old - 1) cs)
      else c # replace_from old new cs)"

definition py_replace :: "'a list \<Rightarrow> 'a list \<Rightarrow> 'a list \<Rightarrow> 'a list" where
  \<comment> \<open>\<open>text.replace(old, new)\<close>: every non-overlapping occurrence is replaced; an empty
      \<open>old\<close> matches before every character and at the end\<close>
  "py_replace text old new =
     (if old = [] then new @ concat (map (\<lambda>c. c # new) text)
      else replace_from old new text)"

section \<open>Errors and the regular-expression engine\<close>

datatype py_error =
    RegexError               \<comment> \<open>\<open>re.error\<close>: the pattern does not compile\<close>
  | ValueError               \<comment> \<open>\<open>int()\<close> of a non-number, or unpacking a wrong number of parts\<close>
  | ForgeReleaseError pystr  \<comment> \<open>the release script's own exception, with its message\<close>

text \<open>
  \<open>re.search\<close> belongs to Python's standard library. Its answer is a parameter of the
  model: \<open>re_search pattern text\<close> is what \<open>re.search(pattern, text, flags)\<close> does, namely
  raise \<open>re.error\<close>, return \<open>None\<close>, or return the match object of the first match in
  document order, of which the code reads \<open>m.span()\<close> (or \<open>m.end()\<close>).
\<close>

datatype re_result = ReRaises | NoMatch | Match nat nat

type_synonym re_engine = "pystr \<Rightarrow> pystr \<Rightarrow> re_result"

section \<open>The idempotent text patcher (\<open>generate_cmd.py\<close>)\<close>

definition append_at_end :: "pystr \<Rightarrow> pystr \<Rightarrow> pystr" where
  \<comment> \<open>the last statement of \<open>insert_once\<close>: \<open>text.rstrip() + "\n" + needle + "\n"\<close>\<close>
  "append_at_end text needle = rstrip text @ nl @ needle @ nl"

definition insert_once ::
  "re_engine \<Rightarrow> pystr \<Rightarrow> pystr \<Rightarrow> pystr \<Rightarrow> bool \<Rightarrow> pystr option \<Rightarrow> py_error + pystr" where
  \<comment> \<open>\<open>is_before\<close> is the parameter \<open>before\<close>. \<open>fallback_pattern\<close> is \<open>None\<close> or a
      string; \<open>if fallback_pattern:\<close> is false for both \<open>None\<close> and the empty string\<close>
  "insert_once re_search text needle anchor is_before fallback_pattern =
     (if py_in needle text then Inr text
      else if py_in anchor text then
        Inr (py_replace text anchor
              (if \<not> is_before then needle @ nl @ anchor else anchor @ nl @ needle))
      else
        (case fallback_pattern of
           None \<Rightarrow> Inr (append_at_end text needle)
         | Some pat \<Rightarrow>
             if pat = [] then Inr (append_at_end text needle)
             else
               (case re_search pat text of
                  ReRaises \<Rightarrow> Inl RegexError
                | NoMatch \<Rightarrow> Inr (append_at_end text needle)
                | Match start stop \<Rightarrow>
                    if is_before then Inr (take start text @ needle @ nl @ drop start text)
                    else Inr (take stop text @ nl @ needle @ drop stop text))))"

definition insert_after_line :: "re_engine \<Rightarrow> pystr \<Rightarrow> pystr \<Rightarrow> pystr \<Rightarrow> py_error + pystr" where
  "insert_after_line re_search text after_pattern payload =
     (case re_search after_pattern text of
        ReRaises \<Rightarrow> Inl RegexError
      | NoMatch \<Rightarrow> Inr (if py_in payload text then text else payload @ text)
      | Match start idx \<Rightarrow>
          Inr (if py_in payload text then text
               else take idx text @ payload @ drop idx text))"

definition never_matches :: re_engine where
  \<comment> \<open>an engine whose every search returns \<open>None\<close>, for concrete examples\<close>
  "never_matches pat text = NoMatch"

definition matches_at :: "nat \<Rightarrow> nat \<Rightarrow> re_engine" where
  \<comment> \<open>an engine whose every search finds the span \<open>(start, stop)\<close>, for concrete examples\<close>
  "matches_at start stop pat text = Match start stop"

fun count_from :: "'a list \<Rightarrow> 'a list \<Rightarrow> nat" where
  \<comment> \<open>the left-to-right scan of \<open>str.count\<close> for a non-empty \<open>sub\<close>: an occurrence is
      counted and skipped, so the occurrences counted do not overlap\<close>
  "count_from sub [] = 0"
| "count_from sub (c # cs) =
     (if take (length sub) (c # cs) = sub
      then 1 + count_from sub (drop (length sub - 1) cs)
      else count_from sub cs)"

definition py_count :: "'a list \<Rightarrow> 'a list \<Rightarrow> nat" where
  \<comment> \<open>\<open>text.count(sub)\<close>; the empty string is counted before every character and at the
      end\<close>
  "py_count text sub = (if sub = [] then length text + 1 else count_from sub text)"

fun join_lines :: "pystr list \<Rightarrow> pystr" where
  \<comment> \<open>the text of a document given as its sequence of lines: \<open>"\n".join(lines)\<close>\<close>
  "join_lines [] = []"
| "join_lines [l] = l"
| "join_lines (l # ls) = l @ nl @ join_lines ls"

section \<open>The version bumper (\<open>forge_release.py\<close>)\<close>




















section \<open>The two stored version strings\<close>

text \<open>
  Both scripts read \<open>pyproject.toml\<close> and \<open>src/forge/__init__.py\<close> and search each with
  a fixed regular expression. \<open>m1\<close> and \<open>m2\<close> are the outcomes of the two searches:
  \<open>None\<close> when nothing matches, otherwise group 1 of the match, the version string.
\<close>

definition check_version_sync :: "pystr option \<Rightarrow> pystr option \<Rightarrow> pystr \<times> nat" where
  \<comment> \<open>\<open>scripts/check_version_sync.py\<close>: the line printed and the exit status of the process\<close>
  "check_version_sync m1 m2 =
     (case (m1, m2) of
        (Some v1, Some v2) \<Rightarrow>
          if v1 \<noteq> v2
          then (str ''Version mismatch: pyproject.toml='' @ v1 @ str '' vs __init__='' @ v2, 2)
          else (str ''Version OK: '' @ v1, 0)
      | _ \<Rightarrow> (str ''Could not find version in pyproject.toml or src/forge/__init__.py'', 1))"

definition get_current_version :: "pystr option \<Rightarrow> pystr option \<Rightarrow> py_error + pystr \<times> pystr" where
  "get_current_version pyproject_match init_match =
     (case (pyproject_match, init_match) of
        (Some pyproject_version, Some init_version) \<Rightarrow>
          if pyproject_version \<noteq> init_version
          then Inl (ForgeReleaseError
                 (str ''Version mismatch: pyproject.toml='' @ pyproject_version @
                  str '' vs __init__.py='' @ init_version))
          else Inr (pyproject_version, init_version)
      | _ \<Rightarrow> Inl (ForgeReleaseError
                 (str ''Could not find version in pyproject.toml or __init__.py'')))"

definition main_exit_status :: "py_error + 'a \<Rightarrow> nat" where
  \<comment> \<open>the \<open>try\<close>/\<open>except\<close> of \<open>main\<close> in \<open>forge_release.py\<close>: every exception of a command
      is reported and ends the process with \<open>sys.exit(1)\<close>; a command that returns lets
      the process end with status 0\<close>
  "main_exit_status outcome =
     (case outcome of
        Inl (ForgeReleaseError msg) \<Rightarrow> 1
      | Inl e \<Rightarrow> 1
      | Inr r \<Rightarrow> 0)"

section \<open>Substring containment\<close>

lemma py_in_iff: "py_in needle text \<longleftrightarrow> (\<exists>p s. text = p @ needle @ s)"
proof (induction "text")
  case Nil
  show ?case by auto
next
  case (Cons c cs)
  show ?case
  proof
    assume "py_in needle (c # cs)"
    then consider "take (length needle) (c # cs) = needle" | "py_in needle cs"
      by auto
    then show "\<exists>p s. c # cs = p @ needle @ s"
    proof cases
      case 1
      then have "c # cs = [] @ needle @ drop (length needle) (c # cs)"
        by (metis append_Nil append_take_drop_id)
      then show ?thesis by blast
    next
      case 2
      with Cons.IH obtain p s where "cs = p @ needle @ s" by blast
      then have "c # cs = (c # p) @ needle @ s" by simp
      then show ?thesis by blast
    qed
  next
    assume "\<exists>p s. c # cs = p @ needle @ s"
    then obtain p s where ps: "c # cs = p @ needle @ s" by blast
    show "py_in needle (c # cs)"
    proof (cases p)
      case Nil
      with ps have "take (length needle) (c # cs) = needle" by simp
      then show ?thesis by simp
    next
      case (Cons q qs)
      with ps have "cs = qs @ needle @ s" by simp
      with Cons.IH have "py_in needle cs" by blast
      then show ?thesis by simp
    qed
  qed
qed

lemma py_in_appendI: "py_in needle (p @ needle @ s)"
  unfolding py_in_iff by blast

lemma py_in_trans: "py_in a b \<Longrightarrow> py_in b c \<Longrightarrow> py_in a c"
proof -
  assume "py_in a b" and "py_in b c"
  then obtain p s q r where "b = p @ a @ s" and "c = q @ b @ r"
    unfolding py_in_iff by blast
  then have "c = (q @ p) @ a @ (s @ r)" by simp
  then show ?thesis unfolding py_in_iff by blast
qed

lemma replace_from_hit:
  "old \<noteq> [] \<Longrightarrow> py_in old t \<Longrightarrow> \<exists>p s. replace_from old new t = p @ new @ s"
proof (induction old new t rule: replace_from.induct)
  case (1 old new)
  then show ?case by simp
next
  case (2 old new c cs)
  show ?case
  proof (cases "take (length old) (c # cs) = old")
    case True
    then have "replace_from old new (c # cs) = [] @ new @ replace_from old new (drop (length old - 1) cs)"
      by simp
    then show ?thesis by blast
  next
    case False
    with 2 obtain p s where "replace_from old new cs = p @ new @ s" by auto
    with False have "replace_from old new (c # cs) = (c # p) @ new @ s" by simp
    then show ?thesis by blast
  qed
qed

lemma replace_from_miss:
  "\<not> py_in old t \<Longrightarrow> replace_from old new t = t"
  by (induction old new t rule: replace_from.induct) auto

lemma py_replace_hit:
  assumes "py_in old t"
  shows "\<exists>p s. py_replace t old new = p @ new @ s"
proof (cases "old = []")
  case True
  then have "py_replace t old new = [] @ new @ concat (map (\<lambda>c. c # new) t)"
    by (simp add: py_replace_def)
  then show ?thesis by blast
next
  case False
  with assms show ?thesis by (simp add: py_replace_def replace_from_hit)
qed

lemma py_in_py_replace:
  assumes "py_in old t" and "py_in needle new"
  shows "py_in needle (py_replace t old new)"
proof -
  from py_replace_hit [OF assms(1)] obtain p s where "py_replace t old new = p @ new @ s"
    by blast
  then have "py_in new (py_replace t old new)" by (simp add: py_in_appendI)
  with assms(2) show ?thesis by (rule py_in_trans)
qed

lemma py_in_left: "py_in needle (needle @ s)"
  using py_in_appendI [of needle "[]" s] by simp

lemma py_in_right: "py_in needle (p @ needle)"
  using py_in_appendI [of needle p "[]"] by simp

lemma insert_once_contains:
  assumes "insert_once re_search text needle anchor is_before fallback_pattern = Inr result"
  shows "py_in needle result"
proof (cases "py_in needle text")
  case True
  with assms show ?thesis by (simp add: insert_once_def)
next
  case absent: False
  show ?thesis
  proof (cases "py_in anchor text")
    case True
    have "py_in needle (if \<not> is_before then needle @ nl @ anchor else anchor @ nl @ needle)"
      using py_in_left [of needle "nl @ anchor"] py_in_right [of needle "anchor @ nl"] by simp
    with True have "py_in needle (py_replace text anchor
        (if \<not> is_before then needle @ nl @ anchor else anchor @ nl @ needle))"
      by (rule py_in_py_replace)
    with assms absent True show ?thesis by (simp add: insert_once_def)
  next
    case False
    have a: "py_in needle (append_at_end text needle)"
      unfolding append_at_end_def using py_in_appendI [of needle "rstrip text @ nl" nl] by simp
    have b: "py_in needle (take k text @ needle @ nl @ drop k text)" for k
      by (rule py_in_appendI)
    have c: "py_in needle (take k text @ nl @ needle @ drop k text)" for k
      using py_in_appendI [of needle "take k text @ nl" "drop k text"] by simp
    from assms absent False show ?thesis
      by (auto simp: insert_once_def a b c split: option.splits re_result.splits if_splits)
  qed
qed

section \<open>Counting occurrences\<close>

lemma not_py_in_parts:
  assumes "\<not> py_in n (a @ b @ c)"
  shows "\<not> py_in n a" and "\<not> py_in n b" and "\<not> py_in n c"
    and "\<not> py_in n (a @ b)" and "\<not> py_in n (b @ c)"
proof -
  have k: "py_in n x \<Longrightarrow> py_in n (u @ x @ v)" for x u v
  proof -
    assume "py_in n x"
    then obtain p s where "x = p @ n @ s" unfolding py_in_iff by blast
    then have "u @ x @ v = (u @ p) @ n @ (s @ v)" by simp
    then show ?thesis unfolding py_in_iff by blast
  qed
  from assms k [of a "[]" "b @ c"] show "\<not> py_in n a" by auto
  from assms k [of b a c] show "\<not> py_in n b" by auto
  from assms k [of c "a @ b" "[]"] show "\<not> py_in n c" by auto
  from assms k [of "a @ b" "[]" c] show "\<not> py_in n (a @ b)" by auto
  from assms k [of "b @ c" a "[]"] show "\<not> py_in n (b @ c)" by auto
qed

lemma count_from_absent: "\<not> py_in sub t \<Longrightarrow> count_from sub t = 0"
  by (induction sub t rule: count_from.induct) auto

lemma count_from_present: "sub \<noteq> [] \<Longrightarrow> py_in sub t \<Longrightarrow> 0 < count_from sub t"
  by (induction sub t rule: count_from.induct) auto

lemma py_in_length: "py_in sub t \<Longrightarrow> length sub \<le> length t"
  unfolding py_in_iff by auto

lemma count_from_self_append:
  "sub \<noteq> [] \<Longrightarrow> count_from sub (sub @ s) = 1 + count_from sub s"
  by (cases sub) simp_all

lemma count_from_short: "length t < length sub \<Longrightarrow> count_from sub t = 0"
  using py_in_length [of sub t] count_from_absent [of sub t] by auto

lemma take_append_le: "n \<le> length xs \<Longrightarrow> take n (xs @ ys) = take n xs"
  by simp

lemma count_from_append_self:
  "sub \<noteq> [] \<Longrightarrow> \<not> py_in sub p \<Longrightarrow> count_from sub (p @ sub) = 1"
proof (induction p)
  case Nil
  then show ?case using count_from_self_append [of sub "[]"] by simp
next
  case (Cons c cs)
  from Cons.prems(2) have no: "take (length sub) (c # cs) \<noteq> sub" and rest: "\<not> py_in sub cs"
    by auto
  from Cons.prems(1) have pos: "0 < length sub" by simp
  show ?case
  proof (cases "take (length sub) (c # (cs @ sub)) = sub")
    case True
    have short: "length (c # cs) < length sub"
    proof (rule ccontr)
      assume "\<not> length (c # cs) < length sub"
      then have "length sub \<le> length (c # cs)" by arith
      then have "take (length sub) ((c # cs) @ sub) = take (length sub) (c # cs)"
        by (rule take_append_le)
      then have e: "take (length sub) (c # (cs @ sub)) = take (length sub) (c # cs)"
        by (simp only: append_Cons)
      from e [symmetric] True have "take (length sub) (c # cs) = sub" by (rule trans)
      with no show False by (rule notE)
    qed
    have "length (drop (length sub - 1) (cs @ sub)) = Suc (length cs)"
      using pos by (simp only: length_drop length_append)
    with short have "length (drop (length sub - 1) (cs @ sub)) < length sub"
      by (simp only: length_Cons)
    then have z: "count_from sub (drop (length sub - 1) (cs @ sub)) = 0"
      by (rule count_from_short)
    have "count_from sub (c # (cs @ sub)) =
        1 + count_from sub (drop (length sub - 1) (cs @ sub))"
      using True by (simp only: count_from.simps simp_thms if_True)
    with z show ?thesis by (simp only: append_Cons add_0_right)
  next
    case False
    then have "count_from sub (c # (cs @ sub)) = count_from sub (cs @ sub)"
      by (simp only: count_from.simps simp_thms if_False)
    with Cons.IH [OF Cons.prems(1) rest] show ?thesis by (simp only: append_Cons)
  qed
qed

lemma take_across:
  assumes "x \<notin> set sub"
  shows "take (length sub) (a @ x # b) = sub \<longleftrightarrow> take (length sub) a = sub"
proof (cases "length sub \<le> length a")
  case True
  then show ?thesis by simp
next
  case False
  then obtain k where k: "length sub - length a = Suc k"
    by (cases "length sub - length a") auto
  from False have "take (length sub) a = a" by simp
  with k have "take (length sub) (a @ x # b) = a @ x # take k b"
    by (simp only: take_append take_Suc_Cons)
  then have "x \<in> set (take (length sub) (a @ x # b))" by simp
  have l: "take (length sub) (a @ x # b) \<noteq> sub"
  proof
    assume "take (length sub) (a @ x # b) = sub"
    with \<open>x \<in> set (take (length sub) (a @ x # b))\<close> have "x \<in> set sub" by (simp only:)
    with assms show False by contradiction
  qed
  from False have "length (take (length sub) a) < length sub" by simp
  then have "take (length sub) a \<noteq> sub" by auto
  with l show ?thesis by simp
qed

lemma count_from_across:
  "sub \<noteq> [] \<Longrightarrow> x \<notin> set sub \<Longrightarrow>
   count_from sub (a @ x # b) = count_from sub a + count_from sub b"
proof (induction sub a rule: count_from.induct)
  case (1 sub)
  then have "take (length sub) (x # b) \<noteq> sub" by (cases sub) auto
  then show ?case by simp
next
  case (2 sub c cs)
  show ?case
  proof (cases "take (length sub) (c # cs) = sub")
    case True
    then have hit: "take (length sub) ((c # cs) @ x # b) = sub"
      using take_across [OF "2.prems"(2), of "c # cs" b] by simp
    from True have "length (take (length sub) (c # cs)) = length sub" by simp
    then have "length sub \<le> length (c # cs)" by (simp only: length_take)
    then have "drop (length sub - 1) (cs @ x # b) = drop (length sub - 1) cs @ x # b"
      by simp
    with True hit "2.IH"(1) [OF True "2.prems"] show ?thesis by simp
  next
    case False
    then have miss: "take (length sub) ((c # cs) @ x # b) \<noteq> sub"
      using take_across [OF "2.prems"(2), of "c # cs" b] by simp
    with False "2.IH"(2) [OF False "2.prems"] show ?thesis by simp
  qed
qed

lemma count_from_single:
  "sub \<noteq> [] \<Longrightarrow> x \<notin> set sub \<Longrightarrow> count_from sub [x] = 0"
  by (cases sub) auto

lemma replace_from_once:
  "old \<noteq> [] \<Longrightarrow> py_in old t \<Longrightarrow> count_from old t \<le> 1 \<Longrightarrow>
   \<exists>p s. t = p @ old @ s \<and> replace_from old new t = p @ new @ s"
proof (induction old new t rule: replace_from.induct)
  case (1 old new)
  then show ?case by simp
next
  case (2 old new c cs)
  show ?case
  proof (cases "take (length old) (c # cs) = old")
    case True
    with "2.prems"(3) have "count_from old (drop (length old - 1) cs) = 0" by simp
    then have "\<not> py_in old (drop (length old - 1) cs)"
      using count_from_present [OF "2.prems"(1), of "drop (length old - 1) cs"] by auto
    then have r: "replace_from old new (drop (length old - 1) cs) = drop (length old - 1) cs"
      by (rule replace_from_miss)
    have "drop (length old) (c # cs) = drop (length old - 1) cs"
      using "2.prems"(1) by (cases old) simp_all
    moreover have "c # cs = take (length old) (c # cs) @ drop (length old) (c # cs)"
      by (simp only: append_take_drop_id)
    ultimately have "c # cs = take (length old) (c # cs) @ drop (length old - 1) cs"
      by (simp only:)
    with True have a: "c # cs = [] @ old @ drop (length old - 1) cs"
      by (simp only: append_Nil)
    from True have "replace_from old new (c # cs) =
        new @ replace_from old new (drop (length old - 1) cs)"
      by simp
    with r have b: "replace_from old new (c # cs) = [] @ new @ drop (length old - 1) cs"
      by (simp only: append_Nil)
    from a b show ?thesis by blast
  next
    case False
    with "2.prems" have "py_in old cs" and "count_from old cs \<le> 1" by auto
    with "2.IH"(2) [OF False "2.prems"(1)] obtain p s
      where "cs = p @ old @ s" and "replace_from old new cs = p @ new @ s" by blast
    then have a: "c # cs = (c # p) @ old @ s"
      and b: "c # replace_from old new cs = (c # p) @ new @ s"
      by (simp_all only: append_Cons)
    from False have "replace_from old new (c # cs) = c # replace_from old new cs"
      by simp
    with b have "replace_from old new (c # cs) = (c # p) @ new @ s" by (simp only:)
    with a show ?thesis by blast
  qed
qed

lemma py_replace_once:
  assumes "py_in old t" and "py_count t old \<le> 1"
  shows "\<exists>p s. t = p @ old @ s \<and> py_replace t old new = p @ new @ s"
proof (cases "old = []")
  case True
  with assms(2) have "t = []" by (simp add: py_count_def)
  with True have "t = [] @ old @ [] \<and> py_replace t old new = [] @ new @ []"
    by (simp add: py_replace_def)
  then show ?thesis by blast
next
  case False
  with assms have "count_from old t \<le> 1" by (simp add: py_count_def)
  from replace_from_once [OF False assms(1) this, of new] False show ?thesis
    by (simp add: py_replace_def)
qed

lemma rstrip_split: "\<exists>ws. text = rstrip text @ ws \<and> list_all is_space ws"
proof -
  have "rstrip text @ rev (takeWhile is_space (rev text)) =
        rev (takeWhile is_space (rev text) @ dropWhile is_space (rev text))"
    by (simp only: rstrip_def rev_append)
  also have "\<dots> = text"
    by (simp only: takeWhile_dropWhile_id rev_rev_ident)
  finally have "text = rstrip text @ rev (takeWhile is_space (rev text))" by simp
  moreover have "list_all is_space (rev (takeWhile is_space (rev text)))"
    by (simp add: list_all_iff) (meson set_takeWhileD)
  ultimately show ?thesis by blast
qed

lemma count_inserted_before_newline:
  assumes "sub \<noteq> []" and "x \<notin> set sub" and "\<not> py_in sub a" and "\<not> py_in sub b"
  shows "count_from sub ((a @ sub) @ x # b) = 1"
proof -
  have "count_from sub ((a @ sub) @ x # b) = count_from sub (a @ sub) + count_from sub b"
    using assms(1,2) by (rule count_from_across)
  also have "count_from sub (a @ sub) = 1" using assms(1,3) by (rule count_from_append_self)
  also have "count_from sub b = 0" using assms(4) by (rule count_from_absent)
  finally show ?thesis by simp
qed

lemma count_inserted_after_newline:
  assumes "sub \<noteq> []" and "x \<notin> set sub" and "\<not> py_in sub a" and "\<not> py_in sub b"
  shows "count_from sub (a @ x # (sub @ b)) = 1"
proof -
  have "count_from sub (a @ x # (sub @ b)) = count_from sub a + count_from sub (sub @ b)"
    using assms(1,2) by (rule count_from_across)
  also have "count_from sub a = 0" using assms(3) by (rule count_from_absent)
  also have "count_from sub (sub @ b) = 1 + count_from sub b"
    using assms(1) by (rule count_from_self_append)
  also have "count_from sub b = 0" using assms(4) by (rule count_from_absent)
  finally show ?thesis by simp
qed

lemma insert_once_count:
  assumes absent: "\<not> py_in needle text" and line: "10 \<notin> set needle"
    and once: "py_count text anchor \<le> 1"
    and res: "insert_once re_search text needle anchor is_before fallback_pattern = Inr result"
  shows "py_count result needle = 1"
proof -
  from absent have ne: "needle \<noteq> []" by (cases "text") auto
  have parts: "\<not> py_in needle a \<and> \<not> py_in needle b" if "text = a @ m @ b" for a m b
    using absent that not_py_in_parts [of needle a m b] by simp
  have before: "count_from needle ((a @ needle) @ 10 # b) = 1" if "text = a @ m @ b" for a m b
  proof -
    from parts [OF that] have "\<not> py_in needle a" and "\<not> py_in needle b" by simp_all
    with ne line show ?thesis by (rule count_inserted_before_newline)
  qed
  have after: "count_from needle (a @ 10 # (needle @ b)) = 1" if "text = a @ m @ b" for a m b
  proof -
    from parts [OF that] have "\<not> py_in needle a" and "\<not> py_in needle b" by simp_all
    with ne line show ?thesis by (rule count_inserted_after_newline)
  qed
  have cut: "text = take k text @ [] @ drop k text" for k by simp
  have "count_from needle result = 1"
  proof (cases "py_in anchor text")
    case True
    from py_replace_once [OF True once] obtain p s where t: "text = p @ anchor @ s"
      and r: "py_replace text anchor
          (if \<not> is_before then needle @ nl @ anchor else anchor @ nl @ needle) =
        p @ (if \<not> is_before then needle @ nl @ anchor else anchor @ nl @ needle) @ s"
      by blast
    from res absent True r
    have result: "result = p @ (if \<not> is_before then needle @ nl @ anchor
        else anchor @ nl @ needle) @ s"
      by (simp add: insert_once_def)
    show ?thesis
    proof (cases is_before)
      case False
      from t have "text = p @ [] @ (anchor @ s)" by simp
      from before [OF this] False result show ?thesis by (simp add: nl_def)
    next
      case True
      from t have "text = (p @ anchor) @ [] @ s" by simp
      from after [OF this] True result show ?thesis by (simp add: nl_def)
    qed
  next
    case False
    from rstrip_split [of "text"] obtain ws where "text = rstrip text @ ws @ []" by auto
    from parts [OF this] have "\<not> py_in needle (rstrip text)" by simp
    moreover from ne line have "\<not> py_in needle [10]" by (cases needle) auto
    ultimately have "count_from needle (rstrip text @ 10 # (needle @ [10])) = 1"
      using ne line by (intro count_inserted_after_newline)
    then have app: "count_from needle (append_at_end text needle) = 1"
      by (simp add: append_at_end_def nl_def)
    from before [OF cut] have b: "count_from needle (take k text @ needle @ nl @ drop k text) = 1"
      for k by (simp add: nl_def)
    from after [OF cut] have a: "count_from needle (take k text @ nl @ needle @ drop k text) = 1"
      for k by (simp add: nl_def)
    from res absent False show ?thesis
      by (auto simp: insert_once_def app a b split: option.splits re_result.splits if_splits)
  qed
  with ne show ?thesis by (simp add: py_count_def)
qed

section \<open>Decimal numbers and version strings\<close>
























section \<open>Claims about the text patcher\<close>

text \<open>
  C1, as amended. A document that already contains the payload is returned unchanged, with
  every occurrence it had. For a document that does not contain the payload, a payload of
  one line (no newline in it) and an anchor that occurs at most once in the document
  (\<open>text.count(anchor) \<le> 1\<close>), the document that \<open>insert_once\<close> returns contains the
  payload exactly once: \<open>result.count(payload) = 1\<close>. The three calls of \<open>insert_once\<close>
  pass payloads of one line.
\<close>

theorem insert_once_exactly_once:
  "(py_in needle text \<longrightarrow>
      insert_once re_search text needle anchor is_before fallback_pattern = Inr text) \<and>
   (\<not> py_in needle text \<and> 10 \<notin> set needle \<and> py_count text anchor \<le> 1 \<and>
    insert_once re_search text needle anchor is_before fallback_pattern = Inr result \<longrightarrow>
      py_count result needle = 1)"
  using insert_once_count [of needle "text" anchor re_search is_before fallback_pattern result]
  by (simp add: insert_once_def)

theorem insert_once_exactly_once_witness:
  "py_in (str ''x'') (join_lines [str ''a'', str ''x'']) \<and>
   insert_once never_matches (join_lines [str ''a'', str ''x'']) (str ''x'') (str ''# [marker]'')
     False None = Inr (join_lines [str ''a'', str ''x'']) \<and>
   \<not> py_in (str ''x'') (join_lines [str ''a'', str ''# [marker]'', str ''b'']) \<and>
   10 \<notin> set (str ''x'') \<and>
   py_count (join_lines [str ''a'', str ''# [marker]'', str ''b'']) (str ''# [marker]'') \<le> 1 \<and>
   insert_once never_matches (join_lines [str ''a'', str ''# [marker]'', str ''b'']) (str ''x'')
     (str ''# [marker]'') False None =
     Inr (join_lines [str ''a'', str ''x'', str ''# [marker]'', str ''b'']) \<and>
   py_count (join_lines [str ''a'', str ''x'', str ''# [marker]'', str ''b'']) (str ''x'') = 1"
proof -
  have p: "py_in (str ''x'') (join_lines [str ''a'', str ''x''])"
    and a: "\<not> py_in (str ''x'') (join_lines [str ''a'', str ''# [marker]'', str ''b''])"
    and l: "10 \<notin> set (str ''x'')"
    and c: "py_count (join_lines [str ''a'', str ''# [marker]'', str ''b''])
        (str ''# [marker]'') \<le> 1"
    by (simp_all add: str_def nl_def py_count_def)
  have r: "insert_once never_matches (join_lines [str ''a'', str ''# [marker]'', str ''b''])
     (str ''x'') (str ''# [marker]'') False None =
     Inr (join_lines [str ''a'', str ''x'', str ''# [marker]'', str ''b''])"
    by (simp add: insert_once_def str_def nl_def py_replace_def)
  from p a l c r
    insert_once_exactly_once [where re_search = never_matches and needle = "str ''x''"
      and anchor = "str ''# [marker]''" and is_before = False and fallback_pattern = None
      and ?text = "join_lines [str ''a'', str ''x'']"]
    insert_once_exactly_once [where re_search = never_matches and needle = "str ''x''"
      and anchor = "str ''# [marker]''" and is_before = False and fallback_pattern = None
      and ?text = "join_lines [str ''a'', str ''# [marker]'', str ''b'']"
      and result = "join_lines [str ''a'', str ''x'', str ''# [marker]'', str ''b'']"]
  show ?thesis by simp
qed

text \<open>
  C1, as stated, fails. A document whose two lines are both the payload passes the
  duplicate check and is returned unchanged, so the payload occurs in the result twice.
  And a payload that ends in a newline, appended to a document whose last line is the
  rest of it, is counted twice as well: \<open>x\<close> with the payload \<open>x\<close> and a newline gives
  \<open>x\<close>, \<open>x\<close> and an empty line.
\<close>

theorem insert_once_exactly_once_counterexample:
  "insert_once never_matches (join_lines [str ''import os'', str ''import os''])
     (str ''import os'') (str ''# [marker]'') False None =
     Inr (join_lines [str ''import os'', str ''import os'']) \<and>
   py_count (join_lines [str ''import os'', str ''import os'']) (str ''import os'') = 2 \<and>
   insert_once never_matches (str ''x'') (str ''x\<newline>'') (str ''# [marker]'') False None =
     Inr (str ''x\<newline>x\<newline>\<newline>'') \<and>
   py_count (str ''x\<newline>x\<newline>\<newline>'') (str ''x\<newline>'') = 2"
  by (simp add: insert_once_def str_def nl_def py_count_def append_at_end_def rstrip_def
      is_space_def)

text \<open>
  C2. Idempotence: applying \<open>insert_once\<close> to its own result, with the same arguments,
  gives that result again (and where the first application raises, so does the composition);
  in particular a document that already contains the payload is returned unchanged.
\<close>

theorem insert_once_idempotent:
  "(case insert_once re_search text needle anchor is_before fallback_pattern of
      Inl e \<Rightarrow> Inl e
    | Inr once \<Rightarrow> insert_once re_search once needle anchor is_before fallback_pattern) =
   insert_once re_search text needle anchor is_before fallback_pattern \<and>
   (py_in needle text \<longrightarrow>
    insert_once re_search text needle anchor is_before fallback_pattern = Inr text)"
proof
  show "(case insert_once re_search text needle anchor is_before fallback_pattern of
      Inl e \<Rightarrow> Inl e
    | Inr once \<Rightarrow> insert_once re_search once needle anchor is_before fallback_pattern) =
   insert_once re_search text needle anchor is_before fallback_pattern"
  proof (cases "insert_once re_search text needle anchor is_before fallback_pattern")
    case (Inl e)
    then show ?thesis by simp
  next
    case (Inr once)
    then have "py_in needle once" by (rule insert_once_contains)
    then have "insert_once re_search once needle anchor is_before fallback_pattern = Inr once"
      by (simp add: insert_once_def)
    with Inr show ?thesis by simp
  qed
next
  show "py_in needle text \<longrightarrow>
    insert_once re_search text needle anchor is_before fallback_pattern = Inr text"
    by (simp add: insert_once_def)
qed

theorem insert_once_idempotent_witness:
  "py_in (str ''x'') (join_lines [str ''a'', str ''x'', str ''# [marker]'']) \<and>
   insert_once never_matches (join_lines [str ''a'', str ''x'', str ''# [marker]'']) (str ''x'')
     (str ''# [marker]'') False None = Inr (join_lines [str ''a'', str ''x'', str ''# [marker]'']) \<and>
   insert_once never_matches (join_lines [str ''a'', str ''# [marker]'']) (str ''x'')
     (str ''# [marker]'') False None = Inr (join_lines [str ''a'', str ''x'', str ''# [marker]'']) \<and>
   (case insert_once never_matches (join_lines [str ''a'', str ''# [marker]'']) (str ''x'')
           (str ''# [marker]'') False None of
      Inl e \<Rightarrow> Inl e
    | Inr once \<Rightarrow> insert_once never_matches once (str ''x'') (str ''# [marker]'') False None) =
   Inr (join_lines [str ''a'', str ''x'', str ''# [marker]''])"
proof -
  have p: "py_in (str ''x'') (join_lines [str ''a'', str ''x'', str ''# [marker]''])"
    by (simp add: str_def nl_def)
  have r: "insert_once never_matches (join_lines [str ''a'', str ''# [marker]'']) (str ''x'')
     (str ''# [marker]'') False None = Inr (join_lines [str ''a'', str ''x'', str ''# [marker]''])"
    by (simp add: insert_once_def str_def nl_def py_replace_def)
  from p r
    insert_once_idempotent [where re_search = never_matches and needle = "str ''x''"
      and anchor = "str ''# [marker]''" and is_before = False and fallback_pattern = None
      and ?text = "join_lines [str ''a'', str ''x'', str ''# [marker]'']"]
    insert_once_idempotent [where re_search = never_matches and needle = "str ''x''"
      and anchor = "str ''# [marker]''" and is_before = False and fallback_pattern = None
      and ?text = "join_lines [str ''a'', str ''# [marker]'']"]
  show ?thesis by simp
qed


text \<open>
  C4. The steps of \<open>insert_once\<close> are tried in a fixed order and the first that applies
  decides. If the payload is absent and the anchor occurs, the result is the replacement
  at the anchor, whatever the fallback pattern and the engine are. If payload and anchor
  are both absent and the search for a (non-empty) fallback pattern returns a match with
  span \<open>(start, stop)\<close>, the payload and a newline are put before \<open>start\<close> when
  \<open>before\<close> is set, and a newline and the payload after \<open>stop\<close> otherwise; which match
  that is, the first in document order, is the contract of \<open>re.search\<close>. The result is a
  function of the arguments and of the engine's answer to the one search made: two engines
  that agree on that search give the same result.
\<close>

theorem insert_once_priority_order:
  "(\<not> py_in needle text \<and> py_in anchor text \<longrightarrow>
      insert_once re_search text needle anchor is_before fallback_pattern =
        Inr (py_replace text anchor
              (if is_before then anchor @ nl @ needle else needle @ nl @ anchor)) \<and>
      insert_once re_search text needle anchor is_before fallback_pattern =
        insert_once re_search' text needle anchor is_before fallback_pattern') \<and>
   (\<not> py_in needle text \<and> \<not> py_in anchor text \<and> fallback_pattern = Some pat \<and> pat \<noteq> [] \<and>
    re_search pat text = Match start stop \<longrightarrow>
      insert_once re_search text needle anchor is_before fallback_pattern =
        Inr (if is_before then take start text @ needle @ nl @ drop start text
             else take stop text @ nl @ needle @ drop stop text)) \<and>
   ((\<forall>p. fallback_pattern = Some p \<longrightarrow> re_search p text = re_search' p text) \<longrightarrow>
      insert_once re_search text needle anchor is_before fallback_pattern =
      insert_once re_search' text needle anchor is_before fallback_pattern)"
  by (simp add: insert_once_def split: option.splits)

theorem insert_once_priority_order_witness:
  "\<not> py_in (str ''x'') (join_lines [str ''import a'', str ''# [m]'']) \<and>
   py_in (str ''# [m]'') (join_lines [str ''import a'', str ''# [m]'']) \<and>
   insert_once (matches_at 0 8) (join_lines [str ''import a'', str ''# [m]'']) (str ''x'')
     (str ''# [m]'') False (Some (str ''import .'')) =
     Inr (join_lines [str ''import a'', str ''x'', str ''# [m]'']) \<and>
   \<not> py_in (str ''x'') (join_lines [str ''import a'', str ''b'']) \<and>
   \<not> py_in (str ''# [m]'') (join_lines [str ''import a'', str ''b'']) \<and>
   matches_at 0 8 (str ''import .'') (join_lines [str ''import a'', str ''b'']) = Match 0 8 \<and>
   insert_once (matches_at 0 8) (join_lines [str ''import a'', str ''b'']) (str ''x'')
     (str ''# [m]'') False (Some (str ''import .'')) =
     Inr (join_lines [str ''import a'', str ''x'', str ''b'']) \<and>
   insert_once (matches_at 0 8) (join_lines [str ''import a'', str ''b'']) (str ''x'')
     (str ''# [m]'') True (Some (str ''import .'')) =
     Inr (join_lines [str ''x'', str ''import a'', str ''b'']) \<and>
   insert_once never_matches (join_lines [str ''import a'', str ''b'']) (str ''x'')
     (str ''# [m]'') False None =
   insert_once (matches_at 0 8) (join_lines [str ''import a'', str ''b'']) (str ''x'')
     (str ''# [m]'') False None"
proof -
  have a: "\<not> py_in (str ''x'') (join_lines [str ''import a'', str ''# [m]''])"
    and b: "py_in (str ''# [m]'') (join_lines [str ''import a'', str ''# [m]''])"
    and c: "\<not> py_in (str ''x'') (join_lines [str ''import a'', str ''b''])"
    and d: "\<not> py_in (str ''# [m]'') (join_lines [str ''import a'', str ''b''])"
    and e: "matches_at 0 8 (str ''import .'') (join_lines [str ''import a'', str ''b'']) = Match 0 8"
    and f: "str ''import .'' \<noteq> []"
    by (simp_all add: str_def nl_def matches_at_def)
  from a b
    insert_once_priority_order [where re_search = "matches_at 0 8" and needle = "str ''x''"
      and anchor = "str ''# [m]''" and is_before = False
      and fallback_pattern = "Some (str ''import .'')"
      and ?text = "join_lines [str ''import a'', str ''# [m]'']"]
  have 1: "insert_once (matches_at 0 8) (join_lines [str ''import a'', str ''# [m]'']) (str ''x'')
     (str ''# [m]'') False (Some (str ''import .'')) =
     Inr (join_lines [str ''import a'', str ''x'', str ''# [m]''])"
    by (simp add: str_def nl_def py_replace_def)
  from c d e f
    insert_once_priority_order [where re_search = "matches_at 0 8" and needle = "str ''x''"
      and anchor = "str ''# [m]''" and is_before = False
      and fallback_pattern = "Some (str ''import .'')" and pat = "str ''import .''"
      and start = 0 and stop = 8
      and ?text = "join_lines [str ''import a'', str ''b'']"]
  have 2: "insert_once (matches_at 0 8) (join_lines [str ''import a'', str ''b'']) (str ''x'')
     (str ''# [m]'') False (Some (str ''import .'')) =
     Inr (join_lines [str ''import a'', str ''x'', str ''b''])"
    by (simp add: str_def nl_def)
  from c d e f
    insert_once_priority_order [where re_search = "matches_at 0 8" and needle = "str ''x''"
      and anchor = "str ''# [m]''" and is_before = True
      and fallback_pattern = "Some (str ''import .'')" and pat = "str ''import .''"
      and start = 0 and stop = 8
      and ?text = "join_lines [str ''import a'', str ''b'']"]
  have 3: "insert_once (matches_at 0 8) (join_lines [str ''import a'', str ''b'']) (str ''x'')
     (str ''# [m]'') True (Some (str ''import .'')) =
     Inr (join_lines [str ''x'', str ''import a'', str ''b''])"
    by (simp add: str_def nl_def)
  from insert_once_priority_order [where re_search = never_matches
      and re_search' = "matches_at 0 8" and needle = "str ''x''"
      and anchor = "str ''# [m]''" and is_before = False and fallback_pattern = None
      and ?text = "join_lines [str ''import a'', str ''b'']"]
  have 4: "insert_once never_matches (join_lines [str ''import a'', str ''b'']) (str ''x'')
     (str ''# [m]'') False None =
   insert_once (matches_at 0 8) (join_lines [str ''import a'', str ''b'']) (str ''x'')
     (str ''# [m]'') False None"
    by simp
  from a b c d e 1 2 3 4 show ?thesis by simp
qed

text \<open>
  C5. If neither the payload nor the anchor occurs in the document and the fallback
  pattern is missing, empty or matches nowhere, \<open>insert_once\<close> raises nothing and returns
  the document, without its trailing whitespace, followed by a newline, the payload and
  a newline: the payload is the last line of the result.
\<close>

theorem insert_once_last_resort:
  assumes "\<not> py_in needle text" and "\<not> py_in anchor text"
    and "fallback_pattern = None \<or> fallback_pattern = Some [] \<or>
         (\<exists>pat. fallback_pattern = Some pat \<and> re_search pat text = NoMatch)"
  shows "insert_once re_search text needle anchor is_before fallback_pattern =
           Inr (rstrip text @ nl @ needle @ nl) \<and>
         (\<exists>ws. text = rstrip text @ ws \<and> list_all is_space ws)"
  using assms rstrip_split [of "text"]
  by (auto simp: insert_once_def append_at_end_def)

theorem insert_once_last_resort_witness:
  "\<not> py_in (str ''x'') (join_lines [str ''a'', str ''b'', []]) \<and>
   \<not> py_in (str ''# [m]'') (join_lines [str ''a'', str ''b'', []]) \<and>
   never_matches (str ''^import'') (join_lines [str ''a'', str ''b'', []]) = NoMatch \<and>
   insert_once never_matches (join_lines [str ''a'', str ''b'', []]) (str ''x'') (str ''# [m]'')
     False (Some (str ''^import'')) = Inr (join_lines [str ''a'', str ''b'', str ''x'', []]) \<and>
   insert_once never_matches (join_lines [str ''a'', str ''b'', []]) (str ''x'') (str ''# [m]'')
     False None = Inr (join_lines [str ''a'', str ''b'', str ''x'', []])"
proof -
  have a: "\<not> py_in (str ''x'') (join_lines [str ''a'', str ''b'', []])"
    and b: "\<not> py_in (str ''# [m]'') (join_lines [str ''a'', str ''b'', []])"
    and c: "never_matches (str ''^import'') (join_lines [str ''a'', str ''b'', []]) = NoMatch"
    and r: "rstrip (join_lines [str ''a'', str ''b'', []]) = join_lines [str ''a'', str ''b'']"
    by (simp_all add: str_def nl_def never_matches_def rstrip_def is_space_def)
  from c have c': "Some (str ''^import'') = None \<or> Some (str ''^import'') = Some [] \<or>
      (\<exists>pat. Some (str ''^import'') = Some pat \<and>
        never_matches pat (join_lines [str ''a'', str ''b'', []]) = NoMatch)"
    by simp
  have n: "None = None \<or> None = Some [] \<or>
      (\<exists>pat. None = Some pat \<and>
        never_matches pat (join_lines [str ''a'', str ''b'', []]) = NoMatch)"
    by simp
  from a b c' n c r
    insert_once_last_resort [where re_search = never_matches and needle = "str ''x''"
      and anchor = "str ''# [m]''" and is_before = False
      and fallback_pattern = "Some (str ''^import'')"
      and ?text = "join_lines [str ''a'', str ''b'', []]"]
    insert_once_last_resort [where re_search = never_matches and needle = "str ''x''"
      and anchor = "str ''# [m]''" and is_before = False and fallback_pattern = None
      and ?text = "join_lines [str ''a'', str ''b'', []]"]
  show ?thesis by (simp add: nl_def)
qed

text \<open>
  C6. A document in which the anchor occurs twice and the payload does not:
  \<open>str.replace\<close> rewrites every occurrence of the anchor, so the payload is inserted at
  both, and the text after the first anchor, \<open>a\<close> and \<open># [m]\<close>, comes back as \<open>a\<close>,
  \<open>x\<close>, \<open># [m]\<close>.
\<close>

theorem insert_once_repeated_anchor_example:
  "insert_once never_matches (join_lines [str ''# [m]'', str ''a'', str ''# [m]''])
     (str ''x'') (str ''# [m]'') False None =
     Inr (join_lines [str ''x'', str ''# [m]'', str ''a'', str ''x'', str ''# [m]''])"
  by (simp add: insert_once_def str_def nl_def py_replace_def)

text \<open>
  C9. The duplicate check of \<open>insert_once\<close> is substring containment: whenever the payload
  occurs anywhere in the text of the document as a contiguous substring, also in the
  middle of a longer line, \<open>insert_once\<close> returns the document unchanged, whatever the
  anchor, the placement, the fallback pattern and the regular-expression engine are.
\<close>

theorem insert_once_duplicate_check:
  "text = p @ needle @ s \<Longrightarrow>
   insert_once re_search text needle anchor is_before fallback_pattern = Inr text"
  using py_in_appendI [of needle p s] by (simp add: insert_once_def)

theorem insert_once_duplicate_check_witness:
  "str ''import os, sys'' = str ''import '' @ str ''os'' @ str '', sys'' \<and>
   insert_once never_matches (str ''import os, sys'') (str ''os'') (str ''# [m]'')
     False None = Inr (str ''import os, sys'')"
  using insert_once_duplicate_check
    [of "str ''import os, sys''" "str ''import ''" "str ''os''" "str '', sys''"
        never_matches "str ''# [m]''" False None]
  by (simp add: str_def)

text \<open>
  C10. When the search of \<open>insert_after_line\<close> for \<open>after_pattern\<close> finds nothing and
  the payload is not yet in the document, the result is the payload followed by the whole
  document: the payload is put in front, not at the end. When the payload is already in
  the document, the document is returned unchanged, whether or not the search finds
  something.
\<close>

theorem insert_after_line_no_match:
  "(re_search after_pattern text = NoMatch \<and> \<not> py_in payload text \<longrightarrow>
      insert_after_line re_search text after_pattern payload = Inr (payload @ text)) \<and>
   (re_search after_pattern text \<noteq> ReRaises \<and> py_in payload text \<longrightarrow>
      insert_after_line re_search text after_pattern payload = Inr text)"
  by (simp add: insert_after_line_def split: re_result.splits)

theorem insert_after_line_no_match_witness:
  "never_matches (str ''from base import init'') (join_lines [str ''a'', str ''b'']) = NoMatch \<and>
   \<not> py_in (str ''import x\<newline>'') (join_lines [str ''a'', str ''b'']) \<and>
   insert_after_line never_matches (join_lines [str ''a'', str ''b''])
     (str ''from base import init'') (str ''import x\<newline>'') =
     Inr (join_lines [str ''import x'', str ''a'', str ''b'']) \<and>
   py_in (str ''import x\<newline>'') (join_lines [str ''import x'', str ''a'', str ''b'']) \<and>
   insert_after_line never_matches (join_lines [str ''import x'', str ''a'', str ''b''])
     (str ''from base import init'') (str ''import x\<newline>'') =
     Inr (join_lines [str ''import x'', str ''a'', str ''b''])"
proof -
  have n: "never_matches (str ''from base import init'') t = NoMatch" for t
    by (simp add: never_matches_def)
  have a: "\<not> py_in (str ''import x\<newline>'') (join_lines [str ''a'', str ''b''])"
    and b: "py_in (str ''import x\<newline>'') (join_lines [str ''import x'', str ''a'', str ''b''])"
    by (simp_all add: str_def nl_def)
  from n a b
    insert_after_line_no_match [where re_search = never_matches
      and after_pattern = "str ''from base import init''" and payload = "str ''import x\<newline>''"
      and ?text = "join_lines [str ''a'', str ''b'']"]
    insert_after_line_no_match [where re_search = never_matches
      and after_pattern = "str ''from base import init''" and payload = "str ''import x\<newline>''"
      and ?text = "join_lines [str ''import x'', str ''a'', str ''b'']"]
  show ?thesis by (simp add: str_def nl_def)
qed

section \<open>Claims about versions\<close>



text \<open>
  C8, as amended. When both version strings are found and differ, the operation fails with
  a message and a non-zero exit status: \<open>check_version_sync.py\<close> prints the mismatch and
  exits with status 2, while \<open>get_current_version\<close> raises \<open>ForgeReleaseError\<close>, which
  \<open>main\<close> reports and turns into status 1.
\<close>

theorem version_mismatch_fails:
  "v1 \<noteq> v2 \<Longrightarrow>
   check_version_sync (Some v1) (Some v2) =
     (str ''Version mismatch: pyproject.toml='' @ v1 @ str '' vs __init__='' @ v2, 2) \<and>
   get_current_version (Some v1) (Some v2) =
     Inl (ForgeReleaseError
       (str ''Version mismatch: pyproject.toml='' @ v1 @ str '' vs __init__.py='' @ v2)) \<and>
   main_exit_status (get_current_version (Some v1) (Some v2)) = 1"
  by (simp add: check_version_sync_def get_current_version_def main_exit_status_def)

theorem version_mismatch_fails_witness:
  "str ''0.1.0'' \<noteq> str ''0.2.0'' \<and>
   check_version_sync (Some (str ''0.1.0'')) (Some (str ''0.2.0'')) =
     (str ''Version mismatch: pyproject.toml=0.1.0 vs __init__=0.2.0'', 2) \<and>
   get_current_version (Some (str ''0.1.0'')) (Some (str ''0.2.0'')) =
     Inl (ForgeReleaseError (str ''Version mismatch: pyproject.toml=0.1.0 vs __init__.py=0.2.0'')) \<and>
   main_exit_status (get_current_version (Some (str ''0.1.0'')) (Some (str ''0.2.0''))) = 1"
proof -
  have n: "str ''0.1.0'' \<noteq> str ''0.2.0''" by (simp add: str_def)
  from version_mismatch_fails [OF n] n show ?thesis
    by (simp add: str_def main_exit_status_def)
qed

text \<open>
  C8, as stated, fails: on the versions \<open>0.1.0\<close> and \<open>0.2.0\<close> the exit status of
  \<open>check_version_sync.py\<close> is 2, not 1.
\<close>

theorem version_mismatch_exit_status_counterexample:
  "check_version_sync (Some (str ''0.1.0'')) (Some (str ''0.2.0'')) =
     (str ''Version mismatch: pyproject.toml=0.1.0 vs __init__=0.2.0'', 2) \<and>
   snd (check_version_sync (Some (str ''0.1.0'')) (Some (str ''0.2.0''))) \<noteq> 1"
  by (simp add: check_version_sync_def str_def)

end
